theory Spec2Isabelle
  imports Main "HOL-Library.Sublist"
begin

section \<open>The etcd data model, version 1 (calico/datamodel\_v1.py)\<close>

text \<open>
  Strings. The module is Python 2, which has two string types, and a key can be of
  either: a text (\<open>unicode\<close>, what the etcd client delivers) or a byte string (\<open>str\<close>).
  A model \<open>string\<close> holds a text as the list of its UTF-8 bytes and a byte string as the
  list of its bytes. Every pattern, separator and path constant of the module is ASCII,
  and the byte of \<open>/\<close> occurs in the UTF-8 form of a text only where the text has a
  \<open>/\<close>, so matching, splitting, stripping and testing a prefix or suffix on the bytes
  agree with the same operations on the code points. Two operations of the module tell
  the two types apart, and each is modelled for both:
  \<^item> \<^verbatim>\<open>s.encode("utf8")\<close>: on a text it yields the UTF-8 bytes and cannot fail
    (\<open>encode_utf8\<close>); on a byte string it first decodes the bytes as ASCII and raises
    \<open>UnicodeDecodeError\<close> at a byte above 127 (\<open>encode_utf8_str\<close>). The functions that
    encode have a second form for a byte-string key, with the suffix \<open>_str\<close>.
  \<^item> \<^verbatim>\<open>key[n:]\<close>, used once, in \<open>hostname_from_status_key\<close>: see there.
\<close>

subsection \<open>Errors\<close>

datatype py_error = ValueError | IndexError | UnicodeDecodeError

subsection \<open>Path constants\<close>

definition ROOT_DIR :: string where
  "ROOT_DIR = ''/calico''"

definition FELIX_VERSION :: string where
  "FELIX_VERSION = ''/v1''"

definition FELIX_STATUS_DIR :: string where
  "FELIX_STATUS_DIR = ROOT_DIR @ ''/felix'' @ FELIX_VERSION @ ''/host''"

definition VERSION_DIR :: string where
  "VERSION_DIR = ROOT_DIR @ FELIX_VERSION"

definition READY_KEY :: string where
  "READY_KEY = VERSION_DIR @ ''/Ready''"

definition CONFIG_DIR :: string where
  "CONFIG_DIR = VERSION_DIR @ ''/config''"

definition HOST_DIR :: string where
  "HOST_DIR = VERSION_DIR @ ''/host''"

definition POLICY_DIR :: string where
  "POLICY_DIR = VERSION_DIR @ ''/policy''"

definition PROFILE_DIR :: string where
  "PROFILE_DIR = POLICY_DIR @ ''/profile''"

subsection \<open>The string operations the module uses\<close>

text \<open>\<^verbatim>\<open>s.rstrip(c)\<close> for a one-character \<open>c\<close>: every trailing \<open>c\<close> is removed.\<close>

definition rstrip :: "char \<Rightarrow> string \<Rightarrow> string" where
  "rstrip c s = rev (dropWhile (\<lambda>x. x = c) (rev s))"

text \<open>
  \<^verbatim>\<open>s.rsplit(c, 1)\<close>: at most one split, at the last \<open>c\<close>. The result has two
  elements when \<open>c\<close> occurs in \<open>s\<close> and one element, \<open>s\<close> itself, when it does not.
\<close>

definition rsplit1 :: "char \<Rightarrow> string \<Rightarrow> string list" where
  "rsplit1 c s =
     (if c \<in> set s
      then [rev (tl (dropWhile (\<lambda>x. x \<noteq> c) (rev s))), rev (takeWhile (\<lambda>x. x \<noteq> c) (rev s))]
      else [s])"

text \<open>\<^verbatim>\<open>s.split(c, 1)\<close>: at most one split, at the first \<open>c\<close>.\<close>

definition split1 :: "char \<Rightarrow> string \<Rightarrow> string list" where
  "split1 c s =
     (if c \<in> set s
      then [takeWhile (\<lambda>x. x \<noteq> c) s, tl (dropWhile (\<lambda>x. x \<noteq> c) s)]
      else [s])"

text \<open>\<^verbatim>\<open>sep.join(xs)\<close>.\<close>

fun join :: "string \<Rightarrow> string list \<Rightarrow> string" where
  "join sep [] = []"
| "join sep [x] = x"
| "join sep (x # y # ys) = x @ sep @ join sep (y # ys)"

text \<open>
  \<^verbatim>\<open>intern(s.encode("utf8"))\<close>: on a text held as its UTF-8 bytes the encoding
  yields these bytes, and \<open>intern\<close> returns a string equal to its argument.
\<close>

definition encode_utf8 :: "string \<Rightarrow> string" where
  "encode_utf8 s = s"

text \<open>
  \<^verbatim>\<open>s.encode("utf8")\<close> on a byte string: Python 2 decodes the bytes with the default
  codec, ASCII, before it encodes, and the decoding raises at the first byte above 127.
  The encoding of the decoded text is the byte string again.
\<close>

definition is_ascii :: "char \<Rightarrow> bool" where
  "is_ascii c \<longleftrightarrow> of_char c < (128::nat)"

definition encode_utf8_str :: "string \<Rightarrow> py_error + string" where
  "encode_utf8_str s = (if list_all is_ascii s then Inr s else Inl UnicodeDecodeError)"

definition intern :: "string \<Rightarrow> string" where
  "intern s = s"

subsection \<open>Regular expressions\<close>

text \<open>
  The fragment of Python's \<open>re\<close> syntax that the module's five patterns are written in.
  A pattern is matched by backtracking: \<open>rx_step\<close> lists every way a pattern can match
  at the current position, in the order in which the backtracking matcher tries them
  (the left alternative before the right one, the longest repetition before the shorter
  ones), and \<open>re_match\<close> takes the first.  A matcher state is the number of characters
  consumed so far, the remaining input and the named groups captured so far.
\<close>

datatype regex =
    Bol
  | Lit string
  | NotCharPlus char
  | Named string regex
  | Alt regex regex
  | Cat regex regex

type_synonym groups = "(string \<times> string) list"

type_synonym mstate = "nat \<times> string \<times> groups"

fun rx_step :: "regex \<Rightarrow> mstate \<Rightarrow> mstate list" where
  "rx_step Bol (n, s, g) = (if n = 0 then [(n, s, g)] else [])"
| "rx_step (Lit l) (n, s, g) =
     (if prefix l s then [(n + length l, drop (length l) s, g)] else [])"
| "rx_step (NotCharPlus c) (n, s, g) =
     map (\<lambda>k. (n + k, drop k s, g))
         (rev [1 ..< Suc (length (takeWhile (\<lambda>x. x \<noteq> c) s))])"
| "rx_step (Named name r) (n, s, g) =
     map (\<lambda>(n', s', g'). (n', s', (name, take (n' - n) s) # g')) (rx_step r (n, s, g))"
| "rx_step (Alt a b) st = rx_step a st @ rx_step b st"
| "rx_step (Cat a b) st = concat (map (rx_step b) (rx_step a st))"

text \<open>\<^verbatim>\<open>pattern.match(s)\<close>: a match at the start of \<open>s\<close>, or \<open>None\<close>.\<close>

fun first_match :: "mstate list \<Rightarrow> groups option" where
  "first_match [] = None"
| "first_match ((n, s, g) # _) = Some g"

definition re_match :: "regex \<Rightarrow> string \<Rightarrow> groups option" where
  "re_match r s = first_match (rx_step r (0, s, []))"

text \<open>\<^verbatim>\<open>m.group(name)\<close>; a name that the match does not hold raises.\<close>

definition group :: "groups \<Rightarrow> string \<Rightarrow> py_error + string" where
  "group m name = (case map_of m name of None \<Rightarrow> Inl IndexError | Some v \<Rightarrow> Inr v)"

text \<open>The one-or-more characters other than \<open>/\<close> of each capture group.\<close>

definition segment :: regex where
  "segment = NotCharPlus CHR ''/''"

definition RULES_KEY_RE :: regex where
  "RULES_KEY_RE =
     Cat Bol (Cat (Lit PROFILE_DIR) (Cat (Lit ''/'')
       (Cat (Named ''profile_id'' segment) (Lit ''/rules''))))"

definition TAGS_KEY_RE :: regex where
  "TAGS_KEY_RE =
     Cat Bol (Cat (Lit PROFILE_DIR) (Cat (Lit ''/'')
       (Cat (Named ''profile_id'' segment) (Lit ''/tags''))))"

definition ENDPOINT_KEY_RE :: regex where
  "ENDPOINT_KEY_RE =
     Cat Bol (Cat (Alt (Lit HOST_DIR) (Lit FELIX_STATUS_DIR))
       (Cat (Lit ''/'') (Cat (Named ''hostname'' segment) (Cat (Lit ''/'')
       (Cat (Lit ''workload/'')
       (Cat (Named ''orchestrator'' segment) (Cat (Lit ''/'')
       (Cat (Named ''workload_id'' segment) (Cat (Lit ''/'')
       (Cat (Lit ''endpoint/'') (Named ''endpoint_id'' segment)))))))))))"

definition HOST_IP_KEY_RE :: regex where
  "HOST_IP_KEY_RE =
     Cat Bol (Cat (Lit HOST_DIR) (Cat (Lit ''/'')
       (Cat (Named ''hostname'' segment) (Lit ''/bird_ip''))))"

definition IPAM_V4_CIDR_KEY_RE :: regex where
  "IPAM_V4_CIDR_KEY_RE =
     Cat Bol (Cat (Lit VERSION_DIR) (Cat (Lit ''/ipam/v4/pool/'')
       (Named ''encoded_cidr'' segment)))"

subsection \<open>Key builders\<close>

text \<open>
  The builders format with \<^verbatim>\<open>"...%s..." % args\<close>, every argument a string: each
  \<^verbatim>\<open>%s\<close> is replaced by its argument. \<^verbatim>\<open>%\<close> binds tighter than \<^verbatim>\<open>+\<close>, so the root is
  prepended to the formatted text.
\<close>

definition dir_for_host :: "string \<Rightarrow> string" where
  "dir_for_host hostname = HOST_DIR @ (''/'' @ hostname)"

definition dir_for_per_host_config :: "string \<Rightarrow> string" where
  "dir_for_per_host_config hostname = dir_for_host hostname @ ''/config''"

definition dir_for_felix_status :: "string \<Rightarrow> string" where
  "dir_for_felix_status hostname = FELIX_STATUS_DIR @ (''/'' @ hostname)"

definition key_for_last_status :: "string \<Rightarrow> string" where
  "key_for_last_status hostname = dir_for_felix_status hostname @ ''/last_reported_status''"

definition key_for_status :: "string \<Rightarrow> string" where
  "key_for_status hostname = dir_for_felix_status hostname @ ''/status''"

definition key_for_endpoint :: "string \<Rightarrow> string \<Rightarrow> string \<Rightarrow> string \<Rightarrow> string" where
  "key_for_endpoint host orchestrator workload_id endpoint_id =
     HOST_DIR @ (''/'' @ host @ ''/workload/'' @ orchestrator @ ''/'' @ workload_id
                 @ ''/endpoint/'' @ endpoint_id)"

definition key_for_profile :: "string \<Rightarrow> string" where
  "key_for_profile profile_id = PROFILE_DIR @ ''/'' @ profile_id"

definition key_for_profile_rules :: "string \<Rightarrow> string" where
  "key_for_profile_rules profile_id = PROFILE_DIR @ (''/'' @ profile_id @ ''/rules'')"

definition key_for_profile_tags :: "string \<Rightarrow> string" where
  "key_for_profile_tags profile_id = PROFILE_DIR @ (''/'' @ profile_id @ ''/tags'')"

definition key_for_config :: "string \<Rightarrow> string" where
  "key_for_config config_name = CONFIG_DIR @ (''/'' @ config_name)"

subsection \<open>EndpointId\<close>

record EndpointId =
  host :: string
  orchestrator :: string
  workload :: string
  endpoint :: string

text \<open>The constructor \<^verbatim>\<open>EndpointId(host, orchestrator, workload, endpoint)\<close>.\<close>

definition EndpointId_init :: "string \<Rightarrow> string \<Rightarrow> string \<Rightarrow> string \<Rightarrow> EndpointId" where
  "EndpointId_init h orch w e =
     \<lparr>host = intern (encode_utf8 h), orchestrator = intern (encode_utf8 orch),
      workload = intern (encode_utf8 w), endpoint = intern (encode_utf8 e)\<rparr>"

text \<open>The constructor on byte strings: the four fields are encoded in order.\<close>

definition EndpointId_init_str ::
  "string \<Rightarrow> string \<Rightarrow> string \<Rightarrow> string \<Rightarrow> py_error + EndpointId" where
  "EndpointId_init_str h orch w e =
     (case encode_utf8_str h of Inl err \<Rightarrow> Inl err | Inr h' \<Rightarrow>
     (case encode_utf8_str orch of Inl err \<Rightarrow> Inl err | Inr orch' \<Rightarrow>
     (case encode_utf8_str w of Inl err \<Rightarrow> Inl err | Inr w' \<Rightarrow>
     (case encode_utf8_str e of Inl err \<Rightarrow> Inl err | Inr e' \<Rightarrow>
        Inr \<lparr>host = intern h', orchestrator = intern orch',
             workload = intern w', endpoint = intern e'\<rparr>))))"

definition path_for_status :: "EndpointId \<Rightarrow> string" where
  "path_for_status self =
     join ''/'' [FELIX_STATUS_DIR, host self, ''workload'', orchestrator self, workload self,
                 ''endpoint'', endpoint self]"

text \<open>
  Python values that an \<open>EndpointId\<close> can be compared with, and objects: a value
  together with its identity (what \<^verbatim>\<open>is\<close> compares).
\<close>

datatype py_value = EndpointIdV EndpointId | StrV string | IntV int | NoneV

type_synonym py_object = "nat \<times> py_value"

text \<open>
  \<^verbatim>\<open>EndpointId.__eq__(self, other)\<close>. The receiver is an \<open>EndpointId\<close>, given with its
  identity.
\<close>

definition EndpointId_eq :: "nat \<times> EndpointId \<Rightarrow> py_object \<Rightarrow> bool" where
  "EndpointId_eq self other =
     (if fst other = fst self then True
      else (case snd other of
              EndpointIdV b \<Rightarrow>
                endpoint b = endpoint (snd self) \<and> workload b = workload (snd self) \<and>
                host b = host (snd self) \<and> orchestrator b = orchestrator (snd self)
            | _ \<Rightarrow> False))"

definition EndpointId_ne :: "nat \<times> EndpointId \<Rightarrow> py_object \<Rightarrow> bool" where
  "EndpointId_ne self other = (\<not> EndpointId_eq self other)"

text \<open>
  \<^verbatim>\<open>EndpointId.__hash__\<close>. The hash of a string is the interpreter's: it is the
  parameter \<open>str_hash\<close>. Python's integers are unbounded, so the sum does not wrap.
\<close>

definition EndpointId_hash :: "(string \<Rightarrow> int) \<Rightarrow> EndpointId \<Rightarrow> int" where
  "EndpointId_hash str_hash self = str_hash (endpoint self) + str_hash (workload self)"

subsection \<open>Key matchers\<close>

definition get_profile_id_for_profile_dir :: "string \<Rightarrow> py_error + string option" where
  "get_profile_id_for_profile_dir key0 =
     (let key = rstrip CHR ''/'' key0 in
      if CHR ''/'' \<notin> set key then Inr None
      else (case rsplit1 CHR ''/'' key of
              [prefix_part, final_node] \<Rightarrow>
                Inr (if prefix_part = PROFILE_DIR then Some final_node else None)
            | _ \<Rightarrow> Inl ValueError))"

definition get_endpoint_id_from_key :: "string \<Rightarrow> py_error + EndpointId option" where
  "get_endpoint_id_from_key key =
     (case re_match ENDPOINT_KEY_RE key of
        Some m \<Rightarrow>
          (case group m ''hostname'' of Inl err \<Rightarrow> Inl err | Inr h \<Rightarrow>
          (case group m ''orchestrator'' of Inl err \<Rightarrow> Inl err | Inr orch \<Rightarrow>
          (case group m ''workload_id'' of Inl err \<Rightarrow> Inl err | Inr workload_id \<Rightarrow>
          (case group m ''endpoint_id'' of Inl err \<Rightarrow> Inl err | Inr endpoint_id \<Rightarrow>
             Inr (Some (EndpointId_init h orch workload_id endpoint_id))))))
      | None \<Rightarrow> Inr None)"

text \<open>The same function on a byte-string key: the constructor can raise.\<close>

definition get_endpoint_id_from_key_str :: "string \<Rightarrow> py_error + EndpointId option" where
  "get_endpoint_id_from_key_str key =
     (case re_match ENDPOINT_KEY_RE key of
        Some m \<Rightarrow>
          (case group m ''hostname'' of Inl err \<Rightarrow> Inl err | Inr h \<Rightarrow>
          (case group m ''orchestrator'' of Inl err \<Rightarrow> Inl err | Inr orch \<Rightarrow>
          (case group m ''workload_id'' of Inl err \<Rightarrow> Inl err | Inr workload_id \<Rightarrow>
          (case group m ''endpoint_id'' of Inl err \<Rightarrow> Inl err | Inr endpoint_id \<Rightarrow>
          (case EndpointId_init_str h orch workload_id endpoint_id of
             Inl err \<Rightarrow> Inl err
           | Inr combined_id \<Rightarrow> Inr (Some combined_id))))))
      | None \<Rightarrow> Inr None)"

text \<open>
  \<^verbatim>\<open>key[len(FELIX_STATUS_DIR + '/'):]\<close> is modelled as dropping that many elements of
  the list. That is the slice of a byte-string key. It is also the slice of a text key
  whenever the character that follows \<open>FELIX_STATUS_DIR\<close> in the key is ASCII (the slice
  drops 21 ASCII characters of the root and this one), so for every ASCII key and for
  every key under \<open>FELIX_STATUS_DIR + "/"\<close>.
\<close>

definition hostname_from_status_key :: "string \<Rightarrow> py_error + string option" where
  "hostname_from_status_key key =
     (if \<not> prefix FELIX_STATUS_DIR key \<or> \<not> suffix ''/status'' key then Inr None
      else (let in_host_dir = drop (length (FELIX_STATUS_DIR @ ''/'')) key;
                path = split1 CHR ''/'' in_host_dir
            in (case path of [] \<Rightarrow> Inl IndexError | hostname # _ \<Rightarrow> Inr (Some hostname))))"

subsection \<open>Absence from every matcher\<close>

text \<open>
  The seven matchers of the module, each yielding absence on \<open>key\<close>: the five patterns
  do not match, and the three functions return \<open>None\<close>.
\<close>

definition no_matcher_matches :: "string \<Rightarrow> bool" where
  "no_matcher_matches key \<longleftrightarrow>
     re_match RULES_KEY_RE key = None \<and>
     re_match TAGS_KEY_RE key = None \<and>
     get_profile_id_for_profile_dir key = Inr None \<and>
     get_endpoint_id_from_key key = Inr None \<and>
     re_match HOST_IP_KEY_RE key = None \<and>
     re_match IPAM_V4_CIDR_KEY_RE key = None \<and>
     hostname_from_status_key key = Inr None"

section \<open>Facts about the model\<close>

subsection \<open>The path constants, spelled out\<close>

lemma path_constants:
  "ROOT_DIR = ''/calico''"
  "FELIX_VERSION = ''/v1''"
  "FELIX_STATUS_DIR = ''/calico/felix/v1/host''"
  "VERSION_DIR = ''/calico/v1''"
  "CONFIG_DIR = ''/calico/v1/config''"
  "HOST_DIR = ''/calico/v1/host''"
  "POLICY_DIR = ''/calico/v1/policy''"
  "PROFILE_DIR = ''/calico/v1/policy/profile''"
  by (simp_all add: ROOT_DIR_def FELIX_VERSION_def FELIX_STATUS_DIR_def VERSION_DIR_def
        CONFIG_DIR_def HOST_DIR_def POLICY_DIR_def PROFILE_DIR_def)

subsection \<open>Segments: runs of characters other than the separator\<close>

lemma takeWhile_seg:
  "CHR ''/'' \<notin> set p \<Longrightarrow> takeWhile (\<lambda>x. x \<noteq> CHR ''/'') (p @ CHR ''/'' # t) = p"
  by (induction p) auto

lemma dropWhile_seg:
  "CHR ''/'' \<notin> set p \<Longrightarrow> dropWhile (\<lambda>x. x \<noteq> CHR ''/'') (p @ CHR ''/'' # t) = CHR ''/'' # t"
  by (induction p) auto

lemma takeWhile_seg_end:
  "CHR ''/'' \<notin> set p \<Longrightarrow> takeWhile (\<lambda>x. x \<noteq> CHR ''/'') p = p"
  by (induction p) auto

lemma takeWhile_seg_rest:
  "CHR ''/'' \<notin> set p \<Longrightarrow> rest = [] \<or> hd rest = CHR ''/'' \<Longrightarrow>
   takeWhile (\<lambda>x. x \<noteq> CHR ''/'') (p @ rest) = p"
  by (cases rest) (auto simp: takeWhile_seg takeWhile_seg_end)

subsection \<open>Matching: a segment group followed by a separator\<close>

lemma concat_map_downto:
  assumes "\<And>k. 0 < k \<Longrightarrow> k < m \<Longrightarrow> F k = []"
  shows "concat (map F (rev [1 ..< Suc m])) = (if m = 0 then [] else F m)"
proof (cases m)
  case 0
  then show ?thesis by simp
next
  case (Suc j)
  have "concat (map F (rev [1 ..< Suc j])) = []"
    using assms Suc by auto
  then show ?thesis using Suc by simp
qed

lemma run_drop_hd:
  assumes "0 < k" "k < length (takeWhile (\<lambda>x. x \<noteq> c) s)"
  shows "drop k s \<noteq> [] \<and> hd (drop k s) \<noteq> c"
proof -
  let ?run = "takeWhile (\<lambda>x. x \<noteq> c) s"
  have len: "k < length s"
    using assms(2) length_takeWhile_le [of "\<lambda>x. x \<noteq> c" s] by simp
  have "s ! k = ?run ! k"
    using assms(2) by (simp add: takeWhile_nth)
  moreover have "?run ! k \<in> set ?run"
    using assms(2) by simp
  ultimately have "s ! k \<noteq> c"
    by (metis (mono_tags, lifting) set_takeWhileD)
  then show ?thesis using len by (simp add: hd_drop_conv_nth)
qed

lemma rx_step_Lit_no_hd:
  assumes "s = [] \<or> hd s \<noteq> c"
  shows "rx_step (Lit (c # l)) (n, s, g) = []"
  using assms by (cases s) auto

lemma rx_step_Cat_Lit_no_hd:
  assumes "s = [] \<or> hd s \<noteq> c"
  shows "rx_step (Cat (Lit (c # l)) r) (n, s, g) = []"
  using assms by (cases s) auto

lemma rx_step_Named_segment:
  "rx_step (Named nm segment) (n, s, g) =
     map (\<lambda>k. (n + k, drop k s, (nm, take k s) # g))
         (rev [1 ..< Suc (length (takeWhile (\<lambda>x. x \<noteq> CHR ''/'') s))])"
  by (simp add: segment_def comp_def del: upt_Suc)

lemma segment_then:
  assumes "\<And>n s g. s = [] \<or> hd s \<noteq> CHR ''/'' \<Longrightarrow> rx_step r (n, s, g) = []"
  shows "rx_step (Cat (Named nm segment) r) (n, s, g) =
     (if takeWhile (\<lambda>x. x \<noteq> CHR ''/'') s = [] then []
      else rx_step r (n + length (takeWhile (\<lambda>x. x \<noteq> CHR ''/'') s),
                      dropWhile (\<lambda>x. x \<noteq> CHR ''/'') s,
                      (nm, takeWhile (\<lambda>x. x \<noteq> CHR ''/'') s) # g))"
proof -
  let ?P = "\<lambda>x. x \<noteq> CHR ''/''"
  let ?m = "length (takeWhile ?P s)"
  let ?F = "\<lambda>k. rx_step r (n + k, drop k s, (nm, take k s) # g)"
  have short: "\<And>k. 0 < k \<Longrightarrow> k < ?m \<Longrightarrow> ?F k = []"
    using run_drop_hd [of _ "CHR ''/''" s] assms by blast
  have "rx_step (Cat (Named nm segment) r) (n, s, g) = concat (map ?F (rev [1 ..< Suc ?m]))"
    by (simp only: rx_step.simps(6) rx_step_Named_segment map_map comp_def)
  also have "\<dots> = (if ?m = 0 then [] else ?F ?m)"
    using short by (rule concat_map_downto)
  finally show ?thesis
    by (simp add: takeWhile_eq_take [symmetric] dropWhile_eq_drop [symmetric])
qed

lemma segment_then_Lit:
  "rx_step (Cat (Named nm segment) (Lit (CHR ''/'' # l))) (n, s, g) =
     (if takeWhile (\<lambda>x. x \<noteq> CHR ''/'') s = [] then []
      else rx_step (Lit (CHR ''/'' # l)) (n + length (takeWhile (\<lambda>x. x \<noteq> CHR ''/'') s),
                      dropWhile (\<lambda>x. x \<noteq> CHR ''/'') s,
                      (nm, takeWhile (\<lambda>x. x \<noteq> CHR ''/'') s) # g))"
  by (rule segment_then) (rule rx_step_Lit_no_hd)

lemma segment_then_Cat:
  "rx_step (Cat (Named nm segment) (Cat (Lit (CHR ''/'' # l)) r)) (n, s, g) =
     (if takeWhile (\<lambda>x. x \<noteq> CHR ''/'') s = [] then []
      else rx_step (Cat (Lit (CHR ''/'' # l)) r) (n + length (takeWhile (\<lambda>x. x \<noteq> CHR ''/'') s),
                      dropWhile (\<lambda>x. x \<noteq> CHR ''/'') s,
                      (nm, takeWhile (\<lambda>x. x \<noteq> CHR ''/'') s) # g))"
  by (rule segment_then) (rule rx_step_Cat_Lit_no_hd)

lemma first_match_segment:
  "first_match (rx_step (Named nm segment) (n, s, g)) =
     (if takeWhile (\<lambda>x. x \<noteq> CHR ''/'') s = [] then None
      else Some ((nm, takeWhile (\<lambda>x. x \<noteq> CHR ''/'') s) # g))"
proof (cases "length (takeWhile (\<lambda>x. x \<noteq> CHR ''/'') s)")
  case 0
  then show ?thesis by (simp add: rx_step_Named_segment del: rx_step.simps)
next
  case (Suc j)
  then have "takeWhile (\<lambda>x. x \<noteq> CHR ''/'') s \<noteq> []" by auto
  moreover have "take (Suc j) s = takeWhile (\<lambda>x. x \<noteq> CHR ''/'') s"
    using Suc takeWhile_eq_take [of "\<lambda>x. x \<noteq> CHR ''/''" s] by simp
  ultimately show ?thesis using Suc by (simp add: rx_step_Named_segment del: rx_step.simps)
qed

lemma step_Bol0: "rx_step (Cat Bol r) (0, s, g) = rx_step r (0, s, g)"
  by simp

lemma step_Lit:
  "rx_step (Cat (Lit l) r) (n, s, g) =
     (if prefix l s then rx_step r (n + length l, drop (length l) s, g) else [])"
  by simp

lemma run_no_slash: "CHR ''/'' \<notin> set (takeWhile (\<lambda>x. x \<noteq> CHR ''/'') s)"
  by (induction s) auto

lemma one_segment_match:
  "re_match (Cat Bol (Cat (Lit root) (Cat (Lit ''/'')
      (Cat (Named nm segment) (Lit (CHR ''/'' # l)))))) key = Some m \<longleftrightarrow>
   (\<exists>p rest. p \<noteq> [] \<and> CHR ''/'' \<notin> set p \<and> key = root @ ''/'' @ p @ CHR ''/'' # l @ rest \<and>
              m = [(nm, p)])"
  (is "?L \<longleftrightarrow> ?R")
proof
  assume ?R
  then obtain p rest where p: "p \<noteq> []" "CHR ''/'' \<notin> set p"
    and key: "key = root @ ''/'' @ p @ CHR ''/'' # l @ rest" and m: "m = [(nm, p)]"
    by blast
  show ?L
    unfolding re_match_def key m using p
    by (simp add: step_Bol0 step_Lit segment_then_Lit takeWhile_seg dropWhile_seg
          del: rx_step.simps(6))
next
  assume L: ?L
  let ?s = "drop (Suc (length root)) key"
  let ?run = "takeWhile (\<lambda>x. x \<noteq> CHR ''/'') ?s"
  let ?after = "dropWhile (\<lambda>x. x \<noteq> CHR ''/'') ?s"
  from L have c1: "prefix root key" and c2: "prefix ''/'' (drop (length root) key)"
    and c3: "?run \<noteq> []" and c4: "prefix (CHR ''/'' # l) ?after" and m: "m = [(nm, ?run)]"
    unfolding re_match_def
    by (auto simp add: step_Bol0 step_Lit segment_then_Lit simp del: rx_step.simps(6)
          split: if_splits)
  from c1 obtain t1 where k1: "key = root @ t1"
    by (auto simp: prefix_def)
  from c2 k1 obtain t2 where k2: "t1 = CHR ''/'' # t2"
    by (auto simp: prefix_def)
  from c4 obtain rest where k4: "?after = CHR ''/'' # l @ rest"
    by (auto simp: prefix_def)
  have s: "?s = t2" using k1 k2 by simp
  have "t2 = ?run @ ?after" unfolding s by simp
  then have "t2 = ?run @ CHR ''/'' # l @ rest" using k4 by simp
  then have "key = root @ ''/'' @ ?run @ CHR ''/'' # l @ rest"
    using k1 k2 by simp
  with c3 m run_no_slash [of ?s] show ?R by blast
qed

subsection \<open>The endpoint pattern\<close>

lemma roots_step:
  "rx_step (Cat (Alt (Lit HOST_DIR) (Lit FELIX_STATUS_DIR)) r) (n, s, g) =
     (if prefix HOST_DIR s then rx_step r (n + length HOST_DIR, drop (length HOST_DIR) s, g)
      else if prefix FELIX_STATUS_DIR s
        then rx_step r (n + length FELIX_STATUS_DIR, drop (length FELIX_STATUS_DIR) s, g)
      else [])"
proof -
  have "\<not> (prefix HOST_DIR s \<and> prefix FELIX_STATUS_DIR s)"
  proof
    assume "prefix HOST_DIR s \<and> prefix FELIX_STATUS_DIR s"
    then have "prefix HOST_DIR FELIX_STATUS_DIR \<or> prefix FELIX_STATUS_DIR HOST_DIR"
      using prefix_same_cases by blast
    then show False by (simp add: path_constants)
  qed
  then show ?thesis by auto
qed

lemma endpoint_tail_build:
  assumes "h \<noteq> []" "CHR ''/'' \<notin> set h" "orch \<noteq> []" "CHR ''/'' \<notin> set orch"
    and "w \<noteq> []" "CHR ''/'' \<notin> set w" "e \<noteq> []" "CHR ''/'' \<notin> set e"
    and "rest = [] \<or> hd rest = CHR ''/''"
  shows "first_match (rx_step
       (Cat (Lit ''/'') (Cat (Named ''hostname'' segment) (Cat (Lit ''/'')
       (Cat (Lit ''workload/'')
       (Cat (Named ''orchestrator'' segment) (Cat (Lit ''/'')
       (Cat (Named ''workload_id'' segment) (Cat (Lit ''/'')
       (Cat (Lit ''endpoint/'') (Named ''endpoint_id'' segment))))))))))
       (n, ''/'' @ h @ ''/workload/'' @ orch @ ''/'' @ w @ ''/endpoint/'' @ e @ rest, g)) =
     Some ((''endpoint_id'', e) # (''workload_id'', w) # (''orchestrator'', orch) #
           (''hostname'', h) # g)"
  using assms
  by (simp add: step_Lit segment_then_Cat first_match_segment
          takeWhile_seg dropWhile_seg takeWhile_seg_rest
          del: rx_step.simps)

lemma endpoint_match_build:
  assumes "root = HOST_DIR \<or> root = FELIX_STATUS_DIR"
    and "h \<noteq> []" "CHR ''/'' \<notin> set h" "orch \<noteq> []" "CHR ''/'' \<notin> set orch"
    and "w \<noteq> []" "CHR ''/'' \<notin> set w" "e \<noteq> []" "CHR ''/'' \<notin> set e"
    and "rest = [] \<or> hd rest = CHR ''/''"
  shows "re_match ENDPOINT_KEY_RE
           (root @ ''/'' @ h @ ''/workload/'' @ orch @ ''/'' @ w @ ''/endpoint/'' @ e @ rest) =
         Some [(''endpoint_id'', e), (''workload_id'', w), (''orchestrator'', orch),
               (''hostname'', h)]"
proof -
  let ?t = "''/'' @ h @ ''/workload/'' @ orch @ ''/'' @ w @ ''/endpoint/'' @ e @ rest"
  have nohost: "\<not> prefix HOST_DIR (FELIX_STATUS_DIR @ ?t)"
    by (simp add: path_constants)
  from assms(1) show ?thesis
  proof
    assume "root = HOST_DIR"
    then show ?thesis
      unfolding re_match_def ENDPOINT_KEY_RE_def step_Bol0 roots_step
      using endpoint_tail_build [OF assms(2-)] by simp
  next
    assume "root = FELIX_STATUS_DIR"
    then show ?thesis
      unfolding re_match_def ENDPOINT_KEY_RE_def step_Bol0 roots_step
      using endpoint_tail_build [OF assms(2-)] nohost by simp
  qed
qed

lemma first_match_if: "first_match (if c then xs else []) = (if c then first_match xs else None)"
  by simp

lemma endpoint_tail_groups:
  assumes "first_match (rx_step
       (Cat (Lit ''/'') (Cat (Named ''hostname'' segment) (Cat (Lit ''/'')
       (Cat (Lit ''workload/'')
       (Cat (Named ''orchestrator'' segment) (Cat (Lit ''/'')
       (Cat (Named ''workload_id'' segment) (Cat (Lit ''/'')
       (Cat (Lit ''endpoint/'') (Named ''endpoint_id'' segment))))))))))
       (n, s, g)) = Some m"
  shows "\<exists>h orch w e. m = (''endpoint_id'', e) # (''workload_id'', w) # (''orchestrator'', orch) #
           (''hostname'', h) # g"
  using assms
  by (simp add: step_Lit segment_then_Cat first_match_segment first_match_if
          del: rx_step.simps split: if_splits) blast

lemma endpoint_match_groups:
  assumes "re_match ENDPOINT_KEY_RE key = Some m"
  shows "\<exists>h orch w e. m = [(''endpoint_id'', e), (''workload_id'', w), (''orchestrator'', orch),
               (''hostname'', h)]"
  using assms unfolding re_match_def ENDPOINT_KEY_RE_def step_Bol0 roots_step
  by (auto simp only: first_match_if first_match.simps dest: endpoint_tail_groups split: if_splits)

subsection \<open>Decoding an endpoint key\<close>

lemma endpoint_decode:
  assumes "root = HOST_DIR \<or> root = FELIX_STATUS_DIR"
    and "h \<noteq> []" "CHR ''/'' \<notin> set h" "orch \<noteq> []" "CHR ''/'' \<notin> set orch"
    and "w \<noteq> []" "CHR ''/'' \<notin> set w" "e \<noteq> []" "CHR ''/'' \<notin> set e"
    and "rest = [] \<or> hd rest = CHR ''/''"
  shows "get_endpoint_id_from_key
           (root @ ''/'' @ h @ ''/workload/'' @ orch @ ''/'' @ w @ ''/endpoint/'' @ e @ rest) =
         Inr (Some \<lparr>host = h, orchestrator = orch, workload = w, endpoint = e\<rparr>)"
  unfolding get_endpoint_id_from_key_def endpoint_match_build [OF assms]
  by (simp add: group_def EndpointId_init_def intern_def encode_utf8_def)

lemma get_endpoint_id_from_key_total: "\<exists>r. get_endpoint_id_from_key key = Inr r"
proof (cases "re_match ENDPOINT_KEY_RE key")
  case None
  then show ?thesis by (simp add: get_endpoint_id_from_key_def)
next
  case (Some m)
  then obtain h orch w e where
    "m = [(''endpoint_id'', e), (''workload_id'', w), (''orchestrator'', orch), (''hostname'', h)]"
    using endpoint_match_groups by blast
  then show ?thesis using Some by (simp add: get_endpoint_id_from_key_def group_def)
qed

subsection \<open>The one-segment patterns and the pool pattern\<close>

lemma rules_match_iff:
  "re_match RULES_KEY_RE key = Some m \<longleftrightarrow>
   (\<exists>p rest. p \<noteq> [] \<and> CHR ''/'' \<notin> set p \<and>
      key = PROFILE_DIR @ ''/'' @ p @ ''/rules'' @ rest \<and> m = [(''profile_id'', p)])"
  unfolding RULES_KEY_RE_def one_segment_match by simp

lemma tags_match_iff:
  "re_match TAGS_KEY_RE key = Some m \<longleftrightarrow>
   (\<exists>p rest. p \<noteq> [] \<and> CHR ''/'' \<notin> set p \<and>
      key = PROFILE_DIR @ ''/'' @ p @ ''/tags'' @ rest \<and> m = [(''profile_id'', p)])"
  unfolding TAGS_KEY_RE_def one_segment_match by simp

lemma host_ip_match_iff:
  "re_match HOST_IP_KEY_RE key = Some m \<longleftrightarrow>
   (\<exists>p rest. p \<noteq> [] \<and> CHR ''/'' \<notin> set p \<and>
      key = HOST_DIR @ ''/'' @ p @ ''/bird_ip'' @ rest \<and> m = [(''hostname'', p)])"
  unfolding HOST_IP_KEY_RE_def one_segment_match by simp

lemma ipam_match:
  "re_match IPAM_V4_CIDR_KEY_RE key =
     (if prefix (VERSION_DIR @ ''/ipam/v4/pool/'') key \<and>
         takeWhile (\<lambda>x. x \<noteq> CHR ''/'') (drop (length (VERSION_DIR @ ''/ipam/v4/pool/'')) key) \<noteq> []
      then Some [(''encoded_cidr'',
             takeWhile (\<lambda>x. x \<noteq> CHR ''/'') (drop (length (VERSION_DIR @ ''/ipam/v4/pool/'')) key))]
      else None)"
proof -
  have p: "prefix (VERSION_DIR @ ''/ipam/v4/pool/'') key \<longleftrightarrow>
        prefix VERSION_DIR key \<and> prefix ''/ipam/v4/pool/'' (drop (length VERSION_DIR) key)"
    by (auto simp: prefix_def)
  show ?thesis
    unfolding re_match_def IPAM_V4_CIDR_KEY_RE_def step_Bol0 step_Lit p
    by (simp add: first_match_segment del: rx_step.simps)
qed

lemma ipam_match_build:
  assumes "c \<noteq> []" "CHR ''/'' \<notin> set c" "rest = [] \<or> hd rest = CHR ''/''"
  shows "re_match IPAM_V4_CIDR_KEY_RE (VERSION_DIR @ ''/ipam/v4/pool/'' @ c @ rest) =
         Some [(''encoded_cidr'', c)]"
  unfolding ipam_match using assms
  by (simp add: takeWhile_seg_rest path_constants)

subsection \<open>Stripping and splitting at the last separator\<close>

lemma rstrip_replicate:
  assumes "t = [] \<or> last t \<noteq> c"
  shows "rstrip c (t @ replicate n c) = t"
proof -
  have "dropWhile (\<lambda>x. x = c) (replicate n c @ rev t) = dropWhile (\<lambda>x. x = c) (rev t)"
    by (rule dropWhile_append2) simp
  moreover have "dropWhile (\<lambda>x. x = c) (rev t) = rev t"
    using assms by (cases t rule: rev_cases) auto
  ultimately show ?thesis by (simp add: rstrip_def)
qed

lemma rstrip_decomp:
  "\<exists>n. s = rstrip c s @ replicate n c"
proof -
  let ?P = "\<lambda>x. x = c"
  have "takeWhile ?P (rev s) = replicate (length (takeWhile ?P (rev s))) c"
    by (rule replicate_length_same [symmetric]) (auto dest: set_takeWhileD)
  moreover have "rev s = takeWhile ?P (rev s) @ dropWhile ?P (rev s)" by simp
  ultimately have "rev s = replicate (length (takeWhile ?P (rev s))) c @ dropWhile ?P (rev s)"
    by simp
  then have "s = rev (dropWhile ?P (rev s)) @ replicate (length (takeWhile ?P (rev s))) c"
    by (metis rev_append rev_replicate rev_rev_ident)
  then show ?thesis unfolding rstrip_def by blast
qed

lemma rstrip_last: "rstrip c s = [] \<or> last (rstrip c s) \<noteq> c"
proof (cases "dropWhile (\<lambda>x. x = c) (rev s)")
  case Nil
  then show ?thesis by (simp add: rstrip_def)
next
  case (Cons y ys)
  then have "y \<noteq> c" using hd_dropWhile [of "\<lambda>x. x = c" "rev s"] by auto
  then show ?thesis using Cons by (simp add: rstrip_def)
qed

lemma rsplit1_build:
  assumes "c \<notin> set b"
  shows "rsplit1 c (a @ c # b) = [a, b]"
proof -
  have "rev (a @ c # b) = rev b @ c # rev a" by simp
  moreover have "takeWhile (\<lambda>x. x \<noteq> c) (rev b @ c # rev a) = rev b"
    using assms by (induction b rule: rev_induct) auto
  moreover have "dropWhile (\<lambda>x. x \<noteq> c) (rev b @ c # rev a) = c # rev a"
    using assms by (induction b rule: rev_induct) auto
  ultimately show ?thesis by (simp add: rsplit1_def)
qed

lemma rsplit1_decomp:
  assumes "c \<in> set s"
  shows "\<exists>a b. s = a @ c # b \<and> c \<notin> set b \<and> rsplit1 c s = [a, b]"
proof -
  from assms obtain a b where "s = a @ c # b" "c \<notin> set b"
    using split_list_last by fastforce
  then show ?thesis using rsplit1_build by blast
qed

subsection \<open>The profile directory matcher\<close>

lemma profile_dir_stripped:
  "get_profile_id_for_profile_dir key =
     (if CHR ''/'' \<in> set (rstrip CHR ''/'' key)
      then (case rsplit1 CHR ''/'' (rstrip CHR ''/'' key) of
              [a, b] \<Rightarrow> Inr (if a = PROFILE_DIR then Some b else None)
            | _ \<Rightarrow> Inl ValueError)
      else Inr None)"
  by (simp add: get_profile_id_for_profile_dir_def Let_def)

lemma profile_dir_total: "\<exists>r. get_profile_id_for_profile_dir key = Inr r"
proof (cases "CHR ''/'' \<in> set (rstrip CHR ''/'' key)")
  case True
  then obtain a b where "rsplit1 CHR ''/'' (rstrip CHR ''/'' key) = [a, b]"
    using rsplit1_decomp by blast
  then show ?thesis using True by (simp add: profile_dir_stripped)
next
  case False
  then show ?thesis by (simp add: profile_dir_stripped)
qed

lemma profile_dir_Some_iff:
  "get_profile_id_for_profile_dir key = Inr (Some p) \<longleftrightarrow>
     p \<noteq> [] \<and> CHR ''/'' \<notin> set p \<and>
     (\<exists>n. key = PROFILE_DIR @ ''/'' @ p @ replicate n CHR ''/'')"
  (is "?L \<longleftrightarrow> ?R")
proof
  assume L: ?L
  let ?k = "rstrip CHR ''/'' key"
  from L have sl: "CHR ''/'' \<in> set ?k"
    by (auto simp: profile_dir_stripped split: if_splits)
  then obtain a b where ab: "?k = a @ CHR ''/'' # b" "CHR ''/'' \<notin> set b"
      "rsplit1 CHR ''/'' ?k = [a, b]"
    using rsplit1_decomp by blast
  from L sl ab(3) have "a = PROFILE_DIR" "b = p"
    by (auto simp: profile_dir_stripped split: if_splits)
  with ab have k: "?k = PROFILE_DIR @ ''/'' @ p" and np: "CHR ''/'' \<notin> set p" by simp_all
  have "p \<noteq> []"
    using rstrip_last [of "CHR ''/''" key] k by auto
  moreover obtain n where "key = ?k @ replicate n CHR ''/''"
    using rstrip_decomp by blast
  ultimately show ?R using k np by auto
next
  assume R: ?R
  then obtain n where p: "p \<noteq> []" "CHR ''/'' \<notin> set p"
    and key: "key = PROFILE_DIR @ ''/'' @ p @ replicate n CHR ''/''" by blast
  have "last p \<noteq> CHR ''/''" using p by (metis last_in_set)
  then have "last (PROFILE_DIR @ ''/'' @ p) \<noteq> CHR ''/''" using p by simp
  then have "rstrip CHR ''/'' ((PROFILE_DIR @ ''/'' @ p) @ replicate n CHR ''/'') =
      PROFILE_DIR @ ''/'' @ p"
    by (intro rstrip_replicate) simp
  then have k: "rstrip CHR ''/'' key = PROFILE_DIR @ CHR ''/'' # p" using key by simp
  have "rsplit1 CHR ''/'' (PROFILE_DIR @ CHR ''/'' # p) = [PROFILE_DIR, p]"
    using p(2) by (rule rsplit1_build)
  then show ?L by (simp add: profile_dir_stripped k)
qed

lemma profile_dir_None_iff:
  "get_profile_id_for_profile_dir key = Inr None \<longleftrightarrow>
     \<not> (\<exists>p. get_profile_id_for_profile_dir key = Inr (Some p))"
  using profile_dir_total [of key] by (cases "get_profile_id_for_profile_dir key") auto

subsection \<open>The status hostname matcher\<close>

lemma split1_first:
  "\<exists>t. split1 c s = takeWhile (\<lambda>x. x \<noteq> c) s # t"
proof (cases "c \<in> set s")
  case True
  then show ?thesis by (simp add: split1_def)
next
  case False
  then have tw: "takeWhile (\<lambda>x. x \<noteq> c) s = s"
    by (induction s) auto
  show ?thesis using False by (simp add: split1_def tw)
qed

lemma hostname_from_status_key_eq:
  "hostname_from_status_key key =
     (if prefix FELIX_STATUS_DIR key \<and> suffix ''/status'' key
      then Inr (Some (takeWhile (\<lambda>x. x \<noteq> CHR ''/'')
                        (drop (length (FELIX_STATUS_DIR @ ''/'')) key)))
      else Inr None)"
proof -
  obtain t where "split1 CHR ''/'' (drop (length (FELIX_STATUS_DIR @ ''/'')) key) =
      takeWhile (\<lambda>x. x \<noteq> CHR ''/'') (drop (length (FELIX_STATUS_DIR @ ''/'')) key) # t"
    using split1_first by blast
  then show ?thesis
    by (simp add: hostname_from_status_key_def Let_def)
qed

lemma hostname_from_status_key_total: "\<exists>r. hostname_from_status_key key = Inr r"
  by (simp add: hostname_from_status_key_eq)

lemma hostname_from_status_key_under_root:
  assumes "suffix ''/status'' (FELIX_STATUS_DIR @ ''/'' @ t)"
  shows "hostname_from_status_key (FELIX_STATUS_DIR @ ''/'' @ t) =
         Inr (Some (takeWhile (\<lambda>x. x \<noteq> CHR ''/'') t))"
  using assms by (simp add: hostname_from_status_key_eq)

subsection \<open>Equality of endpoint identifiers\<close>

lemma EndpointId_eq_fields:
  assumes "fst b = fst a \<longrightarrow> snd b = EndpointIdV (snd a)"
  shows "EndpointId_eq a b \<longleftrightarrow>
     (\<exists>y. snd b = EndpointIdV y \<and> host (snd a) = host y \<and>
          orchestrator (snd a) = orchestrator y \<and> workload (snd a) = workload y \<and>
          endpoint (snd a) = endpoint y)"
  using assms by (cases "snd b") (auto simp: EndpointId_eq_def)

subsection \<open>Keys outside the roots\<close>

lemma rooted_no_match:
  "\<not> prefix root key \<Longrightarrow> re_match (Cat Bol (Cat (Lit root) r)) key = None"
  by (simp add: re_match_def step_Bol0 step_Lit del: rx_step.simps)

lemma endpoint_no_match:
  "\<not> prefix HOST_DIR key \<Longrightarrow> \<not> prefix FELIX_STATUS_DIR key \<Longrightarrow>
   re_match ENDPOINT_KEY_RE key = None"
  unfolding re_match_def ENDPOINT_KEY_RE_def step_Bol0 roots_step by simp

lemma endpoint_no_decode:
  "\<not> prefix HOST_DIR key \<Longrightarrow> \<not> prefix FELIX_STATUS_DIR key \<Longrightarrow>
   get_endpoint_id_from_key key = Inr None"
  by (simp add: get_endpoint_id_from_key_def endpoint_no_match)

lemma profile_dir_no_root:
  assumes "\<not> prefix PROFILE_DIR key"
  shows "get_profile_id_for_profile_dir key = Inr None"
proof -
  have "\<not> (\<exists>p. get_profile_id_for_profile_dir key = Inr (Some p))"
    using assms by (auto simp: profile_dir_Some_iff)
  then show ?thesis by (simp add: profile_dir_None_iff)
qed

lemma status_no_root:
  "\<not> prefix FELIX_STATUS_DIR key \<Longrightarrow> hostname_from_status_key key = Inr None"
  by (simp add: hostname_from_status_key_eq)

lemma unrooted_no_matcher:
  assumes "\<not> prefix ''/calico/v1'' key" "\<not> prefix ''/calico/felix/v1/host'' key"
  shows "no_matcher_matches key"
proof -
  have v: "\<not> prefix VERSION_DIR key" using assms(1) by (simp add: path_constants)
  have "prefix VERSION_DIR PROFILE_DIR" "prefix VERSION_DIR HOST_DIR"
    by (simp_all add: path_constants)
  with v have p: "\<not> prefix PROFILE_DIR key" and h: "\<not> prefix HOST_DIR key"
    using prefix_order.trans by blast+
  have f: "\<not> prefix FELIX_STATUS_DIR key" using assms(2) by (simp add: path_constants)
  show ?thesis
    unfolding no_matcher_matches_def
    using v p h f
    by (simp add: RULES_KEY_RE_def TAGS_KEY_RE_def HOST_IP_KEY_RE_def IPAM_V4_CIDR_KEY_RE_def
          rooted_no_match endpoint_no_decode profile_dir_no_root status_no_root)
qed

subsection \<open>Text keys: no matcher raises\<close>

text \<open>
  On a text key the three functions return a value, and the empty key, \<open>/foo/bar\<close> and
  every key beginning \<open>/calico/v2/\<close> yield absence from every matcher.
\<close>

lemma text_matchers_total_and_absent:
  "(\<exists>r. get_profile_id_for_profile_dir key = Inr r) \<and>
   (\<exists>r. get_endpoint_id_from_key key = Inr r) \<and>
   (\<exists>r. hostname_from_status_key key = Inr r) \<and>
   no_matcher_matches '''' \<and>
   no_matcher_matches ''/foo/bar'' \<and>
   no_matcher_matches (''/calico/v2/'' @ s)"
proof -
  have "no_matcher_matches ''''" by (rule unrooted_no_matcher) simp_all
  moreover have "no_matcher_matches ''/foo/bar''" by (rule unrooted_no_matcher) simp_all
  moreover have "no_matcher_matches (''/calico/v2/'' @ s)"
    by (rule unrooted_no_matcher) simp_all
  ultimately show ?thesis
    using profile_dir_total get_endpoint_id_from_key_total hostname_from_status_key_total
    by blast
qed

subsection \<open>Byte-string keys\<close>

text \<open>
  The groups of a match are made of characters of the key, so on an ASCII key the
  constructor does not raise and the two forms of \<open>get_endpoint_id_from_key\<close> agree.
  The only error of the byte-string form is \<open>UnicodeDecodeError\<close>, on a key that
  matches the endpoint pattern and has a byte above 127.
\<close>

lemma rx_step_bytes:
  assumes "(n', s', g') \<in> set (rx_step r (n, s, g))"
    and "set s \<subseteq> A" and "\<forall>(k, v) \<in> set g. set v \<subseteq> A"
  shows "set s' \<subseteq> A \<and> (\<forall>(k, v) \<in> set g'. set v \<subseteq> A)"
  using assms
proof (induction r arbitrary: n s g n' s' g')
  case Bol
  then show ?case by (auto split: if_splits)
next
  case (Lit l)
  then show ?case by (auto split: if_splits dest: in_set_dropD)
next
  case (NotCharPlus c)
  then show ?case by (auto dest: in_set_dropD)
next
  case (Named nm r)
  from Named.prems(1) obtain g0 where
    in0: "(n', s', g0) \<in> set (rx_step r (n, s, g))" and g': "g' = (nm, take (n' - n) s) # g0"
    by auto
  from Named.IH [OF in0 Named.prems(2,3)] have "set s' \<subseteq> A" "\<forall>(k, v) \<in> set g0. set v \<subseteq> A"
    by blast+
  moreover have "set (take (n' - n) s) \<subseteq> A"
    using Named.prems(2) by (meson in_set_takeD subset_iff)
  ultimately show ?case using g' by auto
next
  case (Alt a b)
  from Alt.prems(1) have "(n', s', g') \<in> set (rx_step a (n, s, g)) \<or>
      (n', s', g') \<in> set (rx_step b (n, s, g))" by simp
  then show ?case
    using Alt.IH(1) [OF _ Alt.prems(2,3)] Alt.IH(2) [OF _ Alt.prems(2,3)] by blast
next
  case (Cat a b)
  from Cat.prems(1) obtain n1 s1 g1 where
    a: "(n1, s1, g1) \<in> set (rx_step a (n, s, g))" and b: "(n', s', g') \<in> set (rx_step b (n1, s1, g1))"
    by auto
  from Cat.IH(1) [OF a Cat.prems(2,3)] have "set s1 \<subseteq> A" "\<forall>(k, v) \<in> set g1. set v \<subseteq> A"
    by blast+
  then show ?case using Cat.IH(2) [OF b] by blast
qed

lemma first_match_in: "first_match xs = Some g \<Longrightarrow> \<exists>n s. (n, s, g) \<in> set xs"
  by (cases xs) force+

lemma re_match_bytes:
  assumes "re_match r key = Some m" "(k, v) \<in> set m"
  shows "set v \<subseteq> set key"
proof -
  from assms(1) obtain n s where "(n, s, m) \<in> set (rx_step r (0, key, []))"
    unfolding re_match_def using first_match_in by blast
  then have "\<forall>(k, v) \<in> set m. set v \<subseteq> set key"
    using rx_step_bytes [of n s m r 0 key "[]" "set key"] by simp
  then show ?thesis using assms(2) by blast
qed

lemma encode_utf8_str_ascii:
  "list_all is_ascii s \<Longrightarrow> encode_utf8_str s = Inr (encode_utf8 s)"
  by (simp add: encode_utf8_str_def encode_utf8_def)

lemma EndpointId_init_str_ascii:
  assumes "list_all is_ascii h" "list_all is_ascii orch" "list_all is_ascii w" "list_all is_ascii e"
  shows "EndpointId_init_str h orch w e = Inr (EndpointId_init h orch w e)"
  using assms by (simp add: EndpointId_init_str_def EndpointId_init_def encode_utf8_str_ascii)

lemma EndpointId_init_str_error:
  "EndpointId_init_str h orch w e = Inl err \<Longrightarrow> err = UnicodeDecodeError"
  by (auto simp: EndpointId_init_str_def encode_utf8_str_def split: if_splits)

lemma get_endpoint_id_from_key_str_ascii:
  assumes "list_all is_ascii key"
  shows "get_endpoint_id_from_key_str key = get_endpoint_id_from_key key"
proof (cases "re_match ENDPOINT_KEY_RE key")
  case None
  then show ?thesis
    by (simp add: get_endpoint_id_from_key_str_def get_endpoint_id_from_key_def)
next
  case (Some m)
  then obtain h orch w e where
    m: "m = [(''endpoint_id'', e), (''workload_id'', w), (''orchestrator'', orch), (''hostname'', h)]"
    using endpoint_match_groups by blast
  have sub: "set v \<subseteq> set key" if "(k, v) \<in> set m" for k v
    using re_match_bytes [OF Some that] .
  have asc: "list_all is_ascii v" if "(k, v) \<in> set m" for k v
    using assms sub [OF that] by (auto simp: list_all_iff)
  have "list_all is_ascii h" "list_all is_ascii orch" "list_all is_ascii w" "list_all is_ascii e"
    using asc unfolding m by auto
  then have "EndpointId_init_str h orch w e = Inr (EndpointId_init h orch w e)"
    by (rule EndpointId_init_str_ascii)
  then show ?thesis
    using Some
    by (simp add: get_endpoint_id_from_key_str_def get_endpoint_id_from_key_def m group_def)
qed

lemma get_endpoint_id_from_key_str_error:
  assumes "get_endpoint_id_from_key_str key = Inl err"
  shows "err = UnicodeDecodeError \<and> \<not> list_all is_ascii key \<and>
         re_match ENDPOINT_KEY_RE key \<noteq> None"
proof -
  have na: "\<not> list_all is_ascii key"
    using assms get_endpoint_id_from_key_str_ascii [of key]
      get_endpoint_id_from_key_total [of key] by auto
  from assms obtain m where Some: "re_match ENDPOINT_KEY_RE key = Some m"
    by (cases "re_match ENDPOINT_KEY_RE key") (auto simp: get_endpoint_id_from_key_str_def)
  then obtain h orch w e where
    m: "m = [(''endpoint_id'', e), (''workload_id'', w), (''orchestrator'', orch), (''hostname'', h)]"
    using endpoint_match_groups by blast
  from assms Some have "EndpointId_init_str h orch w e = Inl err"
    by (simp add: get_endpoint_id_from_key_str_def m group_def split: sum.splits)
  then have "err = UnicodeDecodeError" by (rule EndpointId_init_str_error)
  then show ?thesis using na Some by simp
qed

lemma endpoint_no_decode_str:
  "\<not> prefix HOST_DIR key \<Longrightarrow> \<not> prefix FELIX_STATUS_DIR key \<Longrightarrow>
   get_endpoint_id_from_key_str key = Inr None"
  by (simp add: get_endpoint_id_from_key_str_def endpoint_no_match)

section \<open>The claims\<close>

text \<open>
  C1. Round trip. The claim holds for the kinds that the module both builds and decodes:
  for non-empty components without \<open>/\<close>, the endpoint key decodes to the
  \<open>EndpointId\<close> of its four components, the profile key decodes to the profile id,
  and the rules and tags keys match their patterns with the profile id as the group.
  The module builds no host-IP and no pool key; the two patterns decode the paths
  \<open>HOST_DIR/h/bird_ip\<close> (under \<open>dir_for_host h\<close>) and
  \<open>VERSION_DIR/ipam/v4/pool/c\<close> to \<open>h\<close> and \<open>c\<close>.
\<close>

theorem round_trip:
  assumes "h \<noteq> []" "CHR ''/'' \<notin> set h" "orch \<noteq> []" "CHR ''/'' \<notin> set orch"
    and "w \<noteq> []" "CHR ''/'' \<notin> set w" "e \<noteq> []" "CHR ''/'' \<notin> set e"
    and "p \<noteq> []" "CHR ''/'' \<notin> set p" "c \<noteq> []" "CHR ''/'' \<notin> set c"
  shows "get_endpoint_id_from_key (key_for_endpoint h orch w e) =
           Inr (Some (EndpointId_init h orch w e)) \<and>
         get_profile_id_for_profile_dir (key_for_profile p) = Inr (Some p) \<and>
         re_match RULES_KEY_RE (key_for_profile_rules p) = Some [(''profile_id'', p)] \<and>
         re_match TAGS_KEY_RE (key_for_profile_tags p) = Some [(''profile_id'', p)] \<and>
         re_match HOST_IP_KEY_RE (dir_for_host h @ ''/bird_ip'') = Some [(''hostname'', h)] \<and>
         re_match IPAM_V4_CIDR_KEY_RE (VERSION_DIR @ ''/ipam/v4/pool/'' @ c) =
           Some [(''encoded_cidr'', c)]"
proof -
  have r0: "([]::string) = [] \<or> hd [] = CHR ''/''" by simp
  have a: "HOST_DIR = HOST_DIR \<or> HOST_DIR = FELIX_STATUS_DIR" by simp
  have 1: "get_endpoint_id_from_key (key_for_endpoint h orch w e) =
           Inr (Some (EndpointId_init h orch w e))"
    using endpoint_decode [OF a assms(1-8) r0]
    by (simp add: key_for_endpoint_def EndpointId_init_def intern_def encode_utf8_def)
  have "key_for_profile p = PROFILE_DIR @ ''/'' @ p @ replicate 0 CHR ''/''"
    by (simp add: key_for_profile_def)
  then have 2: "get_profile_id_for_profile_dir (key_for_profile p) = Inr (Some p)"
    unfolding profile_dir_Some_iff using assms(9,10) by blast
  have "key_for_profile_rules p = PROFILE_DIR @ ''/'' @ p @ ''/rules'' @ []"
    by (simp add: key_for_profile_rules_def)
  then have 3: "re_match RULES_KEY_RE (key_for_profile_rules p) = Some [(''profile_id'', p)]"
    unfolding rules_match_iff using assms(9,10) by blast
  have "key_for_profile_tags p = PROFILE_DIR @ ''/'' @ p @ ''/tags'' @ []"
    by (simp add: key_for_profile_tags_def)
  then have 4: "re_match TAGS_KEY_RE (key_for_profile_tags p) = Some [(''profile_id'', p)]"
    unfolding tags_match_iff using assms(9,10) by blast
  have "dir_for_host h @ ''/bird_ip'' = HOST_DIR @ ''/'' @ h @ ''/bird_ip'' @ []"
    by (simp add: dir_for_host_def)
  then have 5: "re_match HOST_IP_KEY_RE (dir_for_host h @ ''/bird_ip'') = Some [(''hostname'', h)]"
    unfolding host_ip_match_iff using assms(1,2) by blast
  have 6: "re_match IPAM_V4_CIDR_KEY_RE (VERSION_DIR @ ''/ipam/v4/pool/'' @ c) =
           Some [(''encoded_cidr'', c)]"
    using ipam_match_build [OF assms(11,12) r0] by simp
  from 1 2 3 4 5 6 show ?thesis by blast
qed

text \<open>The instance \<open>h1\<close>, \<open>orc\<close>, \<open>w1\<close>, \<open>e1\<close>, profile \<open>foo\<close>, pool \<open>10.0.0.0-8\<close>.\<close>

theorem round_trip_witness:
  "get_endpoint_id_from_key (key_for_endpoint ''h1'' ''orc'' ''w1'' ''e1'') =
           Inr (Some (EndpointId_init ''h1'' ''orc'' ''w1'' ''e1'')) \<and>
   get_profile_id_for_profile_dir (key_for_profile ''foo'') = Inr (Some ''foo'') \<and>
   re_match RULES_KEY_RE (key_for_profile_rules ''foo'') = Some [(''profile_id'', ''foo'')] \<and>
   re_match TAGS_KEY_RE (key_for_profile_tags ''foo'') = Some [(''profile_id'', ''foo'')] \<and>
   re_match HOST_IP_KEY_RE (dir_for_host ''h1'' @ ''/bird_ip'') = Some [(''hostname'', ''h1'')] \<and>
   re_match IPAM_V4_CIDR_KEY_RE (VERSION_DIR @ ''/ipam/v4/pool/'' @ ''10.0.0.0-8'') =
           Some [(''encoded_cidr'', ''10.0.0.0-8'')]"
  by (rule round_trip) simp_all

text \<open>
  The module has no decoder for a host directory or a configuration key: on
  \<open>dir_for_host h1\<close> and on \<open>key_for_config x\<close> every matcher yields absence, so
  for these two kinds no decoding returns the identifier.
\<close>

theorem host_dir_config_no_decoder:
  "no_matcher_matches (dir_for_host ''h1'') \<and> no_matcher_matches (key_for_config ''x'')"
  by code_simp

text \<open>
  C2. The endpoint matcher accepts both roots and extracts the same four components
  from either: for non-empty components without \<open>/\<close>, the key under
  \<open>/calico/v1/host\<close> and the key under \<open>/calico/felix/v1/host\<close> both decode to the
  \<open>EndpointId\<close> with these host, orchestrator, workload and endpoint.
\<close>

theorem endpoint_matcher_both_roots:
  assumes "h \<noteq> []" "CHR ''/'' \<notin> set h" "orch \<noteq> []" "CHR ''/'' \<notin> set orch"
    and "w \<noteq> []" "CHR ''/'' \<notin> set w" "e \<noteq> []" "CHR ''/'' \<notin> set e"
  shows "get_endpoint_id_from_key
           (''/calico/v1/host/'' @ h @ ''/workload/'' @ orch @ ''/'' @ w @ ''/endpoint/'' @ e) =
         Inr (Some \<lparr>host = h, orchestrator = orch, workload = w, endpoint = e\<rparr>) \<and>
         get_endpoint_id_from_key
           (''/calico/felix/v1/host/'' @ h @ ''/workload/'' @ orch @ ''/'' @ w @ ''/endpoint/'' @ e) =
         Inr (Some \<lparr>host = h, orchestrator = orch, workload = w, endpoint = e\<rparr>)"
proof -
  have r: "([]::string) = [] \<or> hd [] = CHR ''/''" by simp
  have a: "HOST_DIR = HOST_DIR \<or> HOST_DIR = FELIX_STATUS_DIR" by simp
  have b: "FELIX_STATUS_DIR = HOST_DIR \<or> FELIX_STATUS_DIR = FELIX_STATUS_DIR" by simp
  show ?thesis
    using endpoint_decode [OF a assms r] endpoint_decode [OF b assms r]
    by (simp add: path_constants)
qed

text \<open>The instance \<open>h1\<close>, \<open>orc\<close>, \<open>w1\<close>, \<open>e1\<close>.\<close>

theorem endpoint_matcher_both_roots_witness:
  "get_endpoint_id_from_key ''/calico/v1/host/h1/workload/orc/w1/endpoint/e1'' =
     Inr (Some \<lparr>host = ''h1'', orchestrator = ''orc'', workload = ''w1'', endpoint = ''e1''\<rparr>) \<and>
   get_endpoint_id_from_key ''/calico/felix/v1/host/h1/workload/orc/w1/endpoint/e1'' =
     Inr (Some \<lparr>host = ''h1'', orchestrator = ''orc'', workload = ''w1'', endpoint = ''e1''\<rparr>)"
  using endpoint_matcher_both_roots [of "''h1''" "''orc''" "''w1''" "''e1''"] by simp

text \<open>
  C3. \<open>hostname_from_status_key\<close> tests that the key starts with \<open>FELIX_STATUS_DIR\<close>,
  without the separator, and then drops the length of \<open>FELIX_STATUS_DIR + "/"\<close>.
  A key in a sibling directory whose name extends \<open>host\<close> passes the test: it is not
  under the status root, yet a hostname is returned, and it is not a segment of the key.
  The docstring promises \<open>None\<close> for a key that is not a status key.
\<close>

theorem hostname_from_status_key_sibling_dir:
  "hostname_from_status_key ''/calico/felix/v1/hostABC/status'' = Inr (Some ''BC'') \<and>
   \<not> prefix (FELIX_STATUS_DIR @ ''/'') ''/calico/felix/v1/hostABC/status''"
  by code_simp

text \<open>The result at this key is not absence.\<close>

theorem hostname_from_status_key_sibling_dir_witness:
  "hostname_from_status_key ''/calico/felix/v1/hostABC/status'' \<noteq> Inr None"
  using hostname_from_status_key_sibling_dir by simp

text \<open>
  C4. \<open>get_profile_id_for_profile_dir\<close> returns \<open>p\<close> exactly when the key is
  \<open>/calico/v1/policy/profile/p\<close> followed by any number of trailing \<open>/\<close>, with
  \<open>p\<close> a non-empty segment; for every other key it returns \<open>None\<close>. The keys
  \<open>.../profile/foo\<close> and \<open>.../profile/foo/\<close> give \<open>foo\<close>, and
  \<open>.../profile/foo/rules\<close> gives \<open>None\<close>.
\<close>

theorem profile_dir_matcher:
  "(get_profile_id_for_profile_dir key = Inr (Some p) \<longleftrightarrow>
      p \<noteq> [] \<and> CHR ''/'' \<notin> set p \<and>
      (\<exists>n. key = ''/calico/v1/policy/profile/'' @ p @ replicate n CHR ''/'')) \<and>
   (get_profile_id_for_profile_dir key = Inr None \<longleftrightarrow>
      \<not> (\<exists>q n. q \<noteq> [] \<and> CHR ''/'' \<notin> set q \<and>
             key = ''/calico/v1/policy/profile/'' @ q @ replicate n CHR ''/'')) \<and>
   get_profile_id_for_profile_dir ''/calico/v1/policy/profile/foo'' = Inr (Some ''foo'') \<and>
   get_profile_id_for_profile_dir ''/calico/v1/policy/profile/foo/'' = Inr (Some ''foo'') \<and>
   get_profile_id_for_profile_dir ''/calico/v1/policy/profile/foo/rules'' = Inr None"
proof -
  have a: "get_profile_id_for_profile_dir k = Inr (Some q) \<longleftrightarrow>
      q \<noteq> [] \<and> CHR ''/'' \<notin> set q \<and>
      (\<exists>n. k = ''/calico/v1/policy/profile/'' @ q @ replicate n CHR ''/'')" for k q
    by (simp add: profile_dir_Some_iff path_constants)
  have b: "get_profile_id_for_profile_dir key = Inr None \<longleftrightarrow>
      \<not> (\<exists>q n. q \<noteq> [] \<and> CHR ''/'' \<notin> set q \<and>
             key = ''/calico/v1/policy/profile/'' @ q @ replicate n CHR ''/'')"
    unfolding profile_dir_None_iff a by blast
  have c: "get_profile_id_for_profile_dir ''/calico/v1/policy/profile/foo'' = Inr (Some ''foo'')"
    by code_simp
  have d: "get_profile_id_for_profile_dir ''/calico/v1/policy/profile/foo/'' = Inr (Some ''foo'')"
    by code_simp
  have e: "get_profile_id_for_profile_dir ''/calico/v1/policy/profile/foo/rules'' = Inr None"
    by code_simp
  show ?thesis using a [of key p] b c d e by blast
qed

text \<open>
  C5. The rules pattern matches a key, with \<open>p\<close> as its group, exactly when the key
  begins with \<open>/calico/v1/policy/profile/p/rules\<close> for a non-empty \<open>p\<close> without
  \<open>/\<close>; likewise the tags pattern with \<open>/tags\<close>. The patterns are anchored at
  the start only: text may follow.
\<close>

theorem profile_rules_tags_matchers:
  "(re_match RULES_KEY_RE key = Some m \<longleftrightarrow>
      (\<exists>p rest. p \<noteq> [] \<and> CHR ''/'' \<notin> set p \<and>
         key = ''/calico/v1/policy/profile/'' @ p @ ''/rules'' @ rest \<and>
         m = [(''profile_id'', p)])) \<and>
   (re_match TAGS_KEY_RE key = Some m \<longleftrightarrow>
      (\<exists>p rest. p \<noteq> [] \<and> CHR ''/'' \<notin> set p \<and>
         key = ''/calico/v1/policy/profile/'' @ p @ ''/tags'' @ rest \<and>
         m = [(''profile_id'', p)]))"
  by (simp add: rules_match_iff tags_match_iff path_constants)

text \<open>
  Keys that are not of the exact shape \<open>.../profile/p/rules\<close> or \<open>.../profile/p/tags\<close>
  and match all the same.
\<close>

theorem profile_rules_exact_counterexample:
  "re_match RULES_KEY_RE ''/calico/v1/policy/profile/foo/rules/extra'' =
     Some [(''profile_id'', ''foo'')] \<and>
   ''/calico/v1/policy/profile/foo/rules/extra'' \<noteq>
     ''/calico/v1/policy/profile/'' @ ''foo'' @ ''/rules'' \<and>
   re_match TAGS_KEY_RE ''/calico/v1/policy/profile/foo/tagsX'' =
     Some [(''profile_id'', ''foo'')]"
  by code_simp

text \<open>
  C6. \<open>path_for_status\<close> of \<open>EndpointId(h, o, w, e)\<close> is the string
  \<open>/calico/felix/v1/host/h/workload/o/w/endpoint/e\<close>: what \<open>key_for_endpoint\<close> builds
  for the same four fields, with the host root replaced by the status root.
\<close>

theorem path_for_status_canonical:
  "path_for_status (EndpointId_init h orch w e) =
     ''/calico/felix/v1/host/'' @ h @ ''/workload/'' @ orch @ ''/'' @ w @ ''/endpoint/'' @ e \<and>
   prefix FELIX_STATUS_DIR (path_for_status (EndpointId_init h orch w e)) \<and>
   prefix HOST_DIR (key_for_endpoint h orch w e) \<and>
   drop (length FELIX_STATUS_DIR) (path_for_status (EndpointId_init h orch w e)) =
     drop (length HOST_DIR) (key_for_endpoint h orch w e)"
  by (simp add: path_for_status_def EndpointId_init_def intern_def encode_utf8_def
        key_for_endpoint_def path_constants)

text \<open>
  C7. Equality of \<open>EndpointId\<close> is structural over the four fields, and comparing
  with a value that is not an \<open>EndpointId\<close> gives \<open>False\<close>. The hypothesis says
  what identity means: the same object has the same value.
\<close>

theorem EndpointId_eq_structural:
  assumes "fst b = fst a \<longrightarrow> snd b = EndpointIdV (snd a)"
  shows "(EndpointId_eq a b \<longleftrightarrow>
           (\<exists>y. snd b = EndpointIdV y \<and> host (snd a) = host y \<and>
                orchestrator (snd a) = orchestrator y \<and> workload (snd a) = workload y \<and>
                endpoint (snd a) = endpoint y)) \<and>
         ((\<forall>y. snd b \<noteq> EndpointIdV y) \<longrightarrow> \<not> EndpointId_eq a b)"
  using EndpointId_eq_fields [OF assms] by blast

text \<open>Equal fields, a different host, and a string.\<close>

theorem EndpointId_eq_structural_witness:
  "EndpointId_eq (0, \<lparr>host = ''h1'', orchestrator = ''orc'', workload = ''w1'', endpoint = ''e1''\<rparr>)
     (1, EndpointIdV \<lparr>host = ''h1'', orchestrator = ''orc'', workload = ''w1'', endpoint = ''e1''\<rparr>) \<and>
   \<not> EndpointId_eq (0, \<lparr>host = ''h1'', orchestrator = ''orc'', workload = ''w1'', endpoint = ''e1''\<rparr>)
     (1, EndpointIdV \<lparr>host = ''h2'', orchestrator = ''orc'', workload = ''w1'', endpoint = ''e1''\<rparr>) \<and>
   \<not> EndpointId_eq (0, \<lparr>host = ''h1'', orchestrator = ''orc'', workload = ''w1'', endpoint = ''e1''\<rparr>)
     (2, StrV ''e1'')"
  using
    EndpointId_eq_structural [of
      "(1, EndpointIdV \<lparr>host = ''h1'', orchestrator = ''orc'', workload = ''w1'', endpoint = ''e1''\<rparr>)"
      "(0, \<lparr>host = ''h1'', orchestrator = ''orc'', workload = ''w1'', endpoint = ''e1''\<rparr>)"]
    EndpointId_eq_structural [of
      "(1, EndpointIdV \<lparr>host = ''h2'', orchestrator = ''orc'', workload = ''w1'', endpoint = ''e1''\<rparr>)"
      "(0, \<lparr>host = ''h1'', orchestrator = ''orc'', workload = ''w1'', endpoint = ''e1''\<rparr>)"]
    EndpointId_eq_structural [of "(2, StrV ''e1'')"
      "(0, \<lparr>host = ''h1'', orchestrator = ''orc'', workload = ''w1'', endpoint = ''e1''\<rparr>)"]
  by simp

text \<open>
  C8. The hash depends on the endpoint and workload fields only: identifiers that agree
  on these two have equal hashes whatever their host and orchestrator, and equal
  identifiers have equal hashes.
\<close>

theorem EndpointId_hash_fields:
  "(endpoint a = endpoint b \<and> workload a = workload b \<longrightarrow>
      EndpointId_hash str_hash a = EndpointId_hash str_hash b) \<and>
   ((fst y = fst x \<longrightarrow> snd y = EndpointIdV (snd x)) \<and> EndpointId_eq x y \<longrightarrow>
      (\<exists>b. snd y = EndpointIdV b \<and>
           EndpointId_hash str_hash (snd x) = EndpointId_hash str_hash b))"
proof (intro conjI impI)
  assume "endpoint a = endpoint b \<and> workload a = workload b"
  then show "EndpointId_hash str_hash a = EndpointId_hash str_hash b"
    by (simp add: EndpointId_hash_def)
next
  assume h: "(fst y = fst x \<longrightarrow> snd y = EndpointIdV (snd x)) \<and> EndpointId_eq x y"
  then obtain b where "snd y = EndpointIdV b" "workload (snd x) = workload b"
      "endpoint (snd x) = endpoint b"
    using EndpointId_eq_fields [of y x] by blast
  then show "\<exists>b. snd y = EndpointIdV b \<and>
           EndpointId_hash str_hash (snd x) = EndpointId_hash str_hash b"
    by (simp add: EndpointId_hash_def)
qed

text \<open>Two identifiers with different hosts and orchestrators, with the length as the string hash.\<close>

theorem EndpointId_hash_fields_witness:
  "EndpointId_hash (\<lambda>s. int (length s))
      \<lparr>host = ''h1'', orchestrator = ''orc'', workload = ''w1'', endpoint = ''e1''\<rparr> =
   EndpointId_hash (\<lambda>s. int (length s))
      \<lparr>host = ''h2'', orchestrator = ''k8s'', workload = ''w1'', endpoint = ''e1''\<rparr> \<and>
   EndpointId_eq (0, \<lparr>host = ''h1'', orchestrator = ''orc'', workload = ''w1'', endpoint = ''e1''\<rparr>)
     (1, EndpointIdV \<lparr>host = ''h1'', orchestrator = ''orc'', workload = ''w1'', endpoint = ''e1''\<rparr>)"
  using EndpointId_hash_fields [of
      "\<lparr>host = ''h1'', orchestrator = ''orc'', workload = ''w1'', endpoint = ''e1''\<rparr>"
      "\<lparr>host = ''h2'', orchestrator = ''k8s'', workload = ''w1'', endpoint = ''e1''\<rparr>"
      "\<lambda>s. int (length s)"
      "(1, EndpointIdV \<lparr>host = ''h1'', orchestrator = ''orc'', workload = ''w1'', endpoint = ''e1''\<rparr>)"
      "(0, \<lparr>host = ''h1'', orchestrator = ''orc'', workload = ''w1'', endpoint = ''e1''\<rparr>)"]
  by (simp add: EndpointId_eq_def)

text \<open>
  C9. The matchers do not all return on every string. On a byte-string key that matches
  the endpoint pattern with a byte above 127 in a component, \<open>get_endpoint_id_from_key\<close>
  raises \<open>UnicodeDecodeError\<close>: the pattern matches, and the constructor of
  \<open>EndpointId\<close> encodes the captured host, which Python 2 first decodes as ASCII. The
  key here has the single byte \<open>0xFF\<close> as its host.
\<close>

theorem get_endpoint_id_from_key_str_raises:
  "re_match ENDPOINT_KEY_RE (''/calico/v1/host/'' @ [CHR 0xFF] @ ''/workload/o/w/endpoint/e'') =
     Some [(''endpoint_id'', ''e''), (''workload_id'', ''w''), (''orchestrator'', ''o''),
           (''hostname'', [CHR 0xFF])] \<and>
   get_endpoint_id_from_key_str
     (''/calico/v1/host/'' @ [CHR 0xFF] @ ''/workload/o/w/endpoint/e'') =
     Inl UnicodeDecodeError"
  by code_simp

text \<open>
  C10. The endpoint matcher is anchored at the start of the key only: a well-formed
  endpoint key extended by \<open>/\<close> and any further text is accepted and decodes to the
  same identifier as the key itself.
\<close>

theorem endpoint_matcher_start_anchored:
  assumes "h \<noteq> []" "CHR ''/'' \<notin> set h" "orch \<noteq> []" "CHR ''/'' \<notin> set orch"
    and "w \<noteq> []" "CHR ''/'' \<notin> set w" "e \<noteq> []" "CHR ''/'' \<notin> set e"
  shows "get_endpoint_id_from_key (key_for_endpoint h orch w e @ ''/'' @ s) =
           Inr (Some (EndpointId_init h orch w e)) \<and>
         get_endpoint_id_from_key (key_for_endpoint h orch w e @ ''/'' @ s) =
           get_endpoint_id_from_key (key_for_endpoint h orch w e)"
proof -
  have r0: "([]::string) = [] \<or> hd [] = CHR ''/''" by simp
  have r1: "''/'' @ s = [] \<or> hd (''/'' @ s) = CHR ''/''" by simp
  have a: "HOST_DIR = HOST_DIR \<or> HOST_DIR = FELIX_STATUS_DIR" by simp
  show ?thesis
    using endpoint_decode [OF a assms r0] endpoint_decode [OF a assms r1]
    by (simp add: key_for_endpoint_def EndpointId_init_def intern_def encode_utf8_def)
qed

text \<open>The instance of an endpoint key followed by \<open>/status\<close>.\<close>

theorem endpoint_matcher_start_anchored_witness:
  "get_endpoint_id_from_key (key_for_endpoint ''h1'' ''orc'' ''w1'' ''e1'' @ ''/'' @ ''status'') =
     Inr (Some (EndpointId_init ''h1'' ''orc'' ''w1'' ''e1'')) \<and>
   get_endpoint_id_from_key (key_for_endpoint ''h1'' ''orc'' ''w1'' ''e1'' @ ''/'' @ ''status'') =
     get_endpoint_id_from_key (key_for_endpoint ''h1'' ''orc'' ''w1'' ''e1'')"
  by (rule endpoint_matcher_start_anchored) simp_all

end
